theory Spec2Isabelle
  imports Complex_Main "HOL-Library.Word"
begin

section \<open>Shallow embedding of react-voice-recorder-pro\<close>

text \<open>
  The hooks of the library are modelled as pure functions over explicit state. JavaScript
  numbers are modelled exactly: timestamps and whole seconds as integers, audio levels as
  reals (no \<open>NaN\<close>: where the source would produce one, the model returns \<open>None\<close>).
  Platform behaviour the hooks depend on (what the recording engine delivers, what
  \<open>getUserMedia\<close> rejects with, which object URL is minted) enters as an argument.
\<close>

subsection \<open>utils/index.ts: normalizeAudioLevel\<close>

text \<open>
  \<^verbatim>\<open>normalizeAudioLevel(level, minLevel = 0.01)\<close>: the default applies when the
  caller passes no second argument (\<open>None\<close>).
\<close>

definition normalizeAudioLevel :: "real \<Rightarrow> real option \<Rightarrow> real" where
  "normalizeAudioLevel level minLevel =
     (let m = (case minLevel of None \<Rightarrow> 1 / 100 | Some v \<Rightarrow> v);
          normalized = max 0 (min 1 level)
      in if normalized < m then 0 else normalized)"

subsection \<open>hooks/useAudioMeter.ts: the RMS computation of tick\<close>

text \<open>
  The waveform buffer is a \<open>Uint8Array\<close>: a list of bytes. The \<open>for\<close> loop of
  \<open>tick\<close> is the recursion \<open>sumSquares_loop\<close> with the running sum as accumulator.
\<close>

definition sample_value :: "8 word \<Rightarrow> real" where
  "sample_value d = (real (unat d) - 128) / 128"

fun sumSquares_loop :: "8 word list \<Rightarrow> real \<Rightarrow> real" where
  "sumSquares_loop [] sumSquares = sumSquares"
| "sumSquares_loop (d # ds) sumSquares =
     sumSquares_loop ds (sumSquares + sample_value d * sample_value d)"

text \<open>
  \<open>Math.sqrt(sumSquares / data.length)\<close>: on an empty buffer JavaScript computes
  \<open>0 / 0 = NaN\<close>, which is no level at all; the model returns \<open>None\<close> there.
\<close>

definition tick_rms :: "8 word list \<Rightarrow> real option" where
  "tick_rms data =
     (if data = [] then None
      else Some (sqrt (sumSquares_loop data 0 / real (length data))))"

subsection \<open>Number formatting: formatTime (useRecordingTimer) and formatDuration (utils)\<close>

text \<open>
  \<open>Number.prototype.toString\<close> on a non-negative whole number (decimal digits, no leading
  zero) and \<open>String.prototype.padStart\<close> with a one-character pad string.
\<close>

definition digit_char :: "nat \<Rightarrow> char" where
  "digit_char d = ''0123456789'' ! d"

function toString :: "nat \<Rightarrow> string" where
  "toString n = (if n < 10 then [digit_char n] else toString (n div 10) @ [digit_char (n mod 10)])"
  by pat_completeness auto
termination
  by (relation "measure (\<lambda>n. n)") auto

declare toString.simps [simp del]

definition padStart :: "nat \<Rightarrow> char \<Rightarrow> string \<Rightarrow> string" where
  "padStart targetLength c s = replicate (targetLength - length s) c @ s"

text \<open>A field of exactly two decimal digits, to state what the padding produces.\<close>

definition two_digits :: "nat \<Rightarrow> string" where
  "two_digits n = [digit_char (n div 10), digit_char (n mod 10)]"

definition formatTime :: "nat \<Rightarrow> string" where
  "formatTime seconds =
     (let hours = seconds div 3600;
          mins = (seconds mod 3600) div 60;
          secs = seconds mod 60
      in padStart 2 CHR ''0'' (toString hours) @ '':'' @
         padStart 2 CHR ''0'' (toString mins) @ '':'' @
         padStart 2 CHR ''0'' (toString secs))"

definition formatDuration :: "nat \<Rightarrow> string" where
  "formatDuration seconds =
     (let hours = seconds div 3600;
          minutes = (seconds mod 3600) div 60;
          secs = seconds mod 60
      in if hours > 0
         then toString hours @ '':'' @ padStart 2 CHR ''0'' (toString minutes) @ '':'' @
              padStart 2 CHR ''0'' (toString secs)
         else toString minutes @ '':'' @ padStart 2 CHR ''0'' (toString secs))"

subsection \<open>hooks/useMicrophone.ts: enable\<close>

text \<open>
  What \<open>getUserMedia\<close> rejects with (or anything else thrown inside the \<open>try\<close>): a value
  that is not an object (\<open>null\<close>, \<open>undefined\<close>, a string, a number), or an object whose
  \<open>name\<close> property is a string or is missing.
\<close>

datatype thrown = NotAnObject | ErrorObject "string option"

datatype PermissionState = granted | denied | prompt | unknown

record microphone =
  stream :: "nat option"
  isEnabled :: bool
  permission :: PermissionState
  mic_error :: "string option"
  streamRef :: "nat option"
  stopped_streams :: "nat list"

definition useMicrophone_init :: microphone where
  "useMicrophone_init =
     \<lparr>stream = None, isEnabled = False, permission = unknown, mic_error = None,
      streamRef = None, stopped_streams = []\<rparr>"

definition error_message :: "thrown \<Rightarrow> string" where
  "error_message err =
     (case err of
        NotAnObject \<Rightarrow> ''Microphone permission or device error''
      | ErrorObject name \<Rightarrow>
          if name = Some ''NotAllowedError'' \<or> name = Some ''SecurityError''
          then ''Permission denied. Please allow microphone in browser site settings.''
          else if name = Some ''NotFoundError'' then ''Microphone device not found.''
          else if name = Some ''NotReadableError''
          then ''Another app is using the microphone or it is not accessible.''
          else ''Microphone permission or device error'')"

text \<open>
  \<open>enable\<close>, given the outcome of \<open>getUserMedia\<close>: \<open>Inr s\<close> is the stream it resolved
  with, \<open>Inl err\<close> the value it rejected with.
\<close>

definition enable :: "thrown + nat \<Rightarrow> microphone \<Rightarrow> microphone" where
  "enable outcome m =
     (let m1 = m\<lparr>mic_error := None\<rparr>;
          m2 = (case streamRef m1 of
                  Some s \<Rightarrow> m1\<lparr>stopped_streams := stopped_streams m1 @ [s],
                               streamRef := None, stream := None, isEnabled := False\<rparr>
                | None \<Rightarrow> m1)
      in case outcome of
           Inr nextStream \<Rightarrow>
             m2\<lparr>streamRef := Some nextStream, stream := Some nextStream, isEnabled := True\<rparr>
         | Inl err \<Rightarrow> m2\<lparr>mic_error := Some (error_message err), isEnabled := False\<rparr>)"

subsection \<open>hooks/useMediaRecorder.ts: the recorder\<close>

text \<open>
  A \<open>Blob\<close> is its bytes and its MIME type; \<open>new Blob(parts, {type})\<close> concatenates the
  parts in order. The constructor normalises the type it is given: a type with a
  character outside the printable ASCII range (codes 32 to 126) becomes the empty string,
  any other type is converted to ASCII lower case.
\<close>

record Blob =
  blob_data :: "8 word list"
  blob_type :: string

definition blob_size :: "Blob \<Rightarrow> nat" where
  "blob_size b = length (blob_data b)"

definition ascii_lowercase :: "char \<Rightarrow> char" where
  "ascii_lowercase c =
     (if 65 \<le> (of_char c :: nat) \<and> (of_char c :: nat) \<le> 90
      then char_of ((of_char c :: nat) + 32) else c)"

definition normalise_type :: "string \<Rightarrow> string" where
  "normalise_type t =
     (if list_all (\<lambda>c. 32 \<le> (of_char c :: nat) \<and> (of_char c :: nat) \<le> 126) t
      then map ascii_lowercase t else [])"

definition new_Blob :: "Blob list \<Rightarrow> string \<Rightarrow> Blob" where
  "new_Blob parts t =
     \<lparr>blob_data = concat (map blob_data parts), blob_type = normalise_type t\<rparr>"

text \<open>
  The platform's \<open>MediaRecorder\<close>: its \<open>state\<close>, the method calls it has received, and the
  handler installed as \<open>onstop\<close>. The hook installs \<open>SyncState\<close> when it builds the engine
  (\<open>setIsRecording(false); setIsPaused(false)\<close>); \<open>stop\<close> overwrites it with a closure
  that builds the blob from the \<open>chunks\<close> and \<open>mimeType\<close> of the render in which
  \<open>stop\<close> was created (\<open>ResolveBlob\<close> holds the captured values).
\<close>

datatype RecordingState = inactive | recording | paused

datatype engine_call = CallStart nat | CallPause | CallResume | CallStop

datatype onstop_handler = SyncState | ResolveBlob "Blob list" string

record MediaRecorder =
  state :: RecordingState
  calls :: "engine_call list"
  onstop :: onstop_handler

record recorder =
  recorderRef :: "MediaRecorder option"
  isRecording :: bool
  isPaused :: bool
  chunks :: "Blob list"
  rec_error :: "string option"
  mimeType :: string

text \<open>Whether an engine exists and is inactive, and the calls the engine has received.\<close>

definition engine_inactive :: "recorder \<Rightarrow> bool" where
  "engine_inactive r = (case recorderRef r of None \<Rightarrow> False | Some e \<Rightarrow> state e = inactive)"

definition engine_calls :: "recorder \<Rightarrow> engine_call list" where
  "engine_calls r = (case recorderRef r of None \<Rightarrow> [] | Some e \<Rightarrow> calls e)"

text \<open>The \<open>dataavailable\<close> listener: empty data is dropped.\<close>

definition ondataavailable :: "Blob \<Rightarrow> recorder \<Rightarrow> recorder" where
  "ondataavailable data r =
     (if blob_size data > 0 then r\<lparr>chunks := chunks r @ [data]\<rparr> else r)"

text \<open>
  \<open>start\<close>. The argument \<open>throws\<close> says whether the engine's \<open>start(100)\<close> throws; the
  engine changes state only when it does not.
\<close>

definition start :: "bool \<Rightarrow> recorder \<Rightarrow> recorder" where
  "start throws r =
     (let r1 = r\<lparr>rec_error := None, chunks := [], isPaused := False\<rparr>
      in case recorderRef r1 of
           None \<Rightarrow> r1
         | Some e \<Rightarrow>
             if state e = inactive
             then (if throws
                   then r1\<lparr>recorderRef := Some (e\<lparr>calls := calls e @ [CallStart 100]\<rparr>),
                            rec_error := Some ''Recording start failed''\<rparr>
                   else r1\<lparr>recorderRef :=
                            Some (e\<lparr>state := recording, calls := calls e @ [CallStart 100]\<rparr>)\<rparr>)
             else r1)"

text \<open>
  A promise is settled with a value, rejected, or still pending. \<open>stop\<close> is the closure
  of the latest render, so the recorder state it is given is the state it has captured.
  The synchronous part of \<open>stop\<close>: on an absent or inactive engine it resolves with \<open>null\<close> at once; otherwise it
  installs the blob-building \<open>onstop\<close> closure, calls the engine's \<open>stop()\<close> (the engine
  becomes inactive) and leaves the promise pending.
\<close>

datatype 'a promise = Resolved 'a | Rejected string | Pending

definition stop :: "recorder \<Rightarrow> recorder \<times> Blob option promise" where
  "stop r =
     (case recorderRef r of
        None \<Rightarrow> (r, Resolved None)
      | Some e \<Rightarrow>
          if state e \<noteq> inactive
          then (r\<lparr>recorderRef :=
                     Some (e\<lparr>onstop := ResolveBlob (chunks r) (mimeType r),
                             state := inactive, calls := calls e @ [CallStop]\<rparr>)\<rparr>,
                Pending)
          else (r, Resolved None))"

text \<open>
  The engine's answer to \<open>stop()\<close>: it fires \<open>dataavailable\<close> with the data gathered since
  the last delivery, then \<open>stop\<close>. The \<open>stop\<close> event runs whichever handler is installed;
  the result is the value the pending promise is resolved with, if the handler resolves one.
\<close>

definition fire_stop :: "recorder \<Rightarrow> recorder \<times> Blob option" where
  "fire_stop r =
     (case recorderRef r of
        None \<Rightarrow> (r, None)
      | Some e \<Rightarrow>
          (case onstop e of
             SyncState \<Rightarrow> (r\<lparr>isRecording := False, isPaused := False\<rparr>, None)
           | ResolveBlob captured t \<Rightarrow> (r, Some (new_Blob captured t))))"

definition engine_stopped :: "Blob \<Rightarrow> recorder \<Rightarrow> recorder \<times> Blob option" where
  "engine_stopped final r = fire_stop (ondataavailable final r)"

text \<open>\<open>await stop()\<close>: the call, then the engine's events when the promise was left pending.\<close>

definition await_stop :: "Blob \<Rightarrow> recorder \<Rightarrow> recorder \<times> Blob option promise" where
  "await_stop final r =
     (case stop r of
        (r1, Pending) \<Rightarrow>
          (case engine_stopped final r1 of
             (r2, Some b) \<Rightarrow> (r2, Resolved (Some b))
           | (r2, None) \<Rightarrow> (r2, Pending))
      | settled \<Rightarrow> settled)"

subsection \<open>hooks/useVoiceRecorder.ts: the merged error\<close>

text \<open>
  JavaScript's \<open>||\<close> on \<open>string | null\<close>: \<open>null\<close> and the empty string are falsy, and
  \<open>a || b\<close> is \<open>a\<close> when \<open>a\<close> is truthy, \<open>b\<close> otherwise.
\<close>

definition truthy :: "string option \<Rightarrow> bool" where
  "truthy v = (case v of None \<Rightarrow> False | Some s \<Rightarrow> s \<noteq> [])"

definition js_or :: "string option \<Rightarrow> string option \<Rightarrow> string option" where
  "js_or a b = (if truthy a then a else b)"

record error_state =
  micError :: "string option"
  recorderError :: "string option"
  error :: "string option"

definition error_init :: error_state where
  "error_init = \<lparr>micError = None, recorderError = None, error = None\<rparr>"

text \<open>The effect with dependencies \<open>[micError, recorderError, error]\<close>.\<close>

definition error_effect :: "error_state \<Rightarrow> error_state" where
  "error_effect s =
     (let combinedError = js_or (js_or (micError s) (recorderError s)) (error s)
      in s\<lparr>error := combinedError\<rparr>)"

text \<open>
  The state updates the effect depends on: the microphone hook or the recorder hook
  publishes a new error value, or the facade itself calls \<open>setError\<close>
  (\<open>startRecording\<close>, \<open>stopRecording\<close>, \<open>reset\<close>).
\<close>

datatype error_event =
  MicErrorSet "string option" | RecorderErrorSet "string option" | LocalErrorSet "string option"

fun error_set :: "error_state \<Rightarrow> error_event \<Rightarrow> error_state" where
  "error_set s (MicErrorSet v) = s\<lparr>micError := v\<rparr>"
| "error_set s (RecorderErrorSet v) = s\<lparr>recorderError := v\<rparr>"
| "error_set s (LocalErrorSet v) = s\<lparr>error := v\<rparr>"

text \<open>
  React applies the updates queued since the last render together and in call order (a
  later write to a state overrides an earlier one), renders once, and runs the effect
  after that render. A render is therefore the list of updates batched into it: one
  update, or several from several sources, as when \<open>startRecording\<close> calls
  \<open>setError(null)\<close> and, with no \<open>await\<close> in between, the recorder's \<open>start\<close> or the
  microphone's \<open>enable\<close> clears its own error. The effect's \<open>setError\<close> is applied at
  once: the render it causes runs the effect on a state the effect no longer changes, and
  the effect of a render has run before the updates of the next one are queued.
\<close>

definition error_render :: "error_state \<Rightarrow> error_event list \<Rightarrow> error_state" where
  "error_render s batch = error_effect (foldl error_set s batch)"

definition error_run :: "error_event list list \<Rightarrow> error_state" where
  "error_run renders = foldl error_render error_init renders"

text \<open>
  The value each of the three states holds after a batch of updates: the last one written
  to it in the batch, or the value it had when the batch writes none.
\<close>

fun latest_mic :: "string option \<Rightarrow> error_event list \<Rightarrow> string option" where
  "latest_mic v [] = v"
| "latest_mic v (MicErrorSet w # es) = latest_mic w es"
| "latest_mic v (RecorderErrorSet w # es) = latest_mic v es"
| "latest_mic v (LocalErrorSet w # es) = latest_mic v es"

fun latest_recorder :: "string option \<Rightarrow> error_event list \<Rightarrow> string option" where
  "latest_recorder v [] = v"
| "latest_recorder v (MicErrorSet w # es) = latest_recorder v es"
| "latest_recorder v (RecorderErrorSet w # es) = latest_recorder w es"
| "latest_recorder v (LocalErrorSet w # es) = latest_recorder v es"

fun latest_local :: "string option \<Rightarrow> error_event list \<Rightarrow> string option" where
  "latest_local v [] = v"
| "latest_local v (MicErrorSet w # es) = latest_local v es"
| "latest_local v (RecorderErrorSet w # es) = latest_local v es"
| "latest_local v (LocalErrorSet w # es) = latest_local w es"

text \<open>
  The reading of the specification to compare with: last write wins, that is, the error
  shown is the one carried by the most recent update that carried a non-empty error.
\<close>

fun event_error :: "error_event \<Rightarrow> string option" where
  "event_error (MicErrorSet v) = v"
| "event_error (RecorderErrorSet v) = v"
| "event_error (LocalErrorSet v) = v"

fun spec_last_write_wins :: "error_event list \<Rightarrow> string option" where
  "spec_last_write_wins [] = None"
| "spec_last_write_wins (e # evs) =
     (case spec_last_write_wins evs of
        Some v \<Rightarrow> Some v
      | None \<Rightarrow> (if truthy (event_error e) then event_error e else None))"

subsection \<open>hooks/useVoiceRecorder.ts: the object URL of the recorded blob\<close>

text \<open>
  Blobs and object URLs are references; both are modelled as numbers. The platform mints a
  fresh URL at each \<open>URL.createObjectURL\<close> (the counter \<open>next_url\<close>), and the calls made
  to the platform are logged in order. An object URL is a non-empty string, so the
  truthiness tests on \<open>previousUrlRef.current\<close> and on \<open>recordedBlob\<close> are tests for
  presence.
\<close>

datatype url_call = createObjectURL nat | revokeObjectURL nat

record url_state =
  recordedBlob :: "nat option"
  audioUrl :: "nat option"
  previousUrlRef :: "nat option"
  url_log :: "url_call list"
  next_url :: nat
  unmounted :: bool

definition url_init :: url_state where
  "url_init =
     \<lparr>recordedBlob = None, audioUrl = None, previousUrlRef = None, url_log = [],
      next_url = 0, unmounted = False\<rparr>"

text \<open>The effect with dependency \<open>[recordedBlob]\<close>.\<close>

definition url_effect :: "url_state \<Rightarrow> url_state" where
  "url_effect s =
     (case recordedBlob s of
        Some b \<Rightarrow>
          (let s1 = (case previousUrlRef s of
                       Some u \<Rightarrow> s\<lparr>url_log := url_log s @ [revokeObjectURL u]\<rparr>
                     | None \<Rightarrow> s);
               url = next_url s1
           in s1\<lparr>url_log := url_log s1 @ [createObjectURL url], next_url := Suc url,
                  audioUrl := Some url, previousUrlRef := Some url\<rparr>)
      | None \<Rightarrow>
          (let s1 = (case previousUrlRef s of
                       Some u \<Rightarrow> s\<lparr>url_log := url_log s @ [revokeObjectURL u],
                                    previousUrlRef := None\<rparr>
                     | None \<Rightarrow> s)
           in s1\<lparr>audioUrl := None\<rparr>))"

text \<open>
  \<open>setRecordedBlob\<close>: React keeps the state and skips the effect when the reference is
  unchanged; after unmount nothing runs.
\<close>

definition setRecordedBlob :: "nat option \<Rightarrow> url_state \<Rightarrow> url_state" where
  "setRecordedBlob b s =
     (if unmounted s \<or> recordedBlob s = b then s else url_effect (s\<lparr>recordedBlob := b\<rparr>))"

text \<open>The cleanup of the mount effect.\<close>

definition unmount :: "url_state \<Rightarrow> url_state" where
  "unmount s =
     (if unmounted s then s
      else (case previousUrlRef s of
              Some u \<Rightarrow> s\<lparr>url_log := url_log s @ [revokeObjectURL u]\<rparr>
            | None \<Rightarrow> s)\<lparr>unmounted := True\<rparr>)"

text \<open>
  The facade operations: \<open>stopRecording\<close> stores what the recorder's \<open>stop\<close> resolved
  with (a blob or \<open>null\<close>), \<open>reset\<close> and \<open>disableMicrophone\<close> store \<open>null\<close>. Every
  other control (\<open>startRecording\<close>, \<open>pauseRecording\<close>, \<open>resumeRecording\<close>,
  \<open>enableMicrophone\<close>, \<open>playPause\<close>, \<open>resumeAudioContext\<close>) leaves \<open>recordedBlob\<close>
  alone: \<open>OtherControl\<close>.
\<close>

datatype facade_op =
  StopRecording "nat option" | ResetAll | DisableMicrophone | OtherControl | Unmount

fun facade_step :: "url_state \<Rightarrow> facade_op \<Rightarrow> url_state" where
  "facade_step s (StopRecording blob) = setRecordedBlob blob s"
| "facade_step s ResetAll = setRecordedBlob None s"
| "facade_step s DisableMicrophone = setRecordedBlob None s"
| "facade_step s OtherControl = s"
| "facade_step s Unmount = unmount s"

definition facade_run :: "facade_op list \<Rightarrow> url_state" where
  "facade_run ops = foldl facade_step url_init ops"

text \<open>The object URLs alive after a sequence of platform calls, in call order.\<close>

fun apply_url_call :: "nat list \<Rightarrow> url_call \<Rightarrow> nat list" where
  "apply_url_call live (createObjectURL u) = live @ [u]"
| "apply_url_call live (revokeObjectURL u) = removeAll u live"

definition live_urls :: "url_call list \<Rightarrow> nat list" where
  "live_urls cs = foldl apply_url_call [] cs"

text \<open>The URLs a sequence of platform calls mints and the URLs it revokes, in call order.\<close>

fun created_urls :: "url_call list \<Rightarrow> nat list" where
  "created_urls [] = []"
| "created_urls (createObjectURL u # cs) = u # created_urls cs"
| "created_urls (revokeObjectURL u # cs) = created_urls cs"

fun revoked_urls :: "url_call list \<Rightarrow> nat list" where
  "revoked_urls [] = []"
| "revoked_urls (createObjectURL u # cs) = revoked_urls cs"
| "revoked_urls (revokeObjectURL u # cs) = u # revoked_urls cs"

text \<open>
  The URL the facade still holds: the one in \<open>previousUrlRef\<close> while mounted, none after
  unmount.
\<close>

definition held_url :: "url_state \<Rightarrow> nat option" where
  "held_url s = (if unmounted s then None else previousUrlRef s)"

text \<open>
  The bookkeeping invariant of the facade: the URLs minted so far are \<open>0, 1, ...\<close> in
  order, all of them revoked in that order except the one still held, which is the only
  one alive.
\<close>

definition url_inv :: "url_state \<Rightarrow> bool" where
  "url_inv s =
     (created_urls (url_log s) = [0..<next_url s] \<and>
      (case held_url s of
         None \<Rightarrow> revoked_urls (url_log s) = [0..<next_url s] \<and> live_urls (url_log s) = []
       | Some u \<Rightarrow>
           Suc u = next_url s \<and> revoked_urls (url_log s) = [0..<u] \<and>
           live_urls (url_log s) = [u]))"

text \<open>
  While the facade is mounted, the URL it publishes as \<open>audioUrl\<close> is the URL it holds,
  and it holds one exactly when a blob is recorded.
\<close>

definition url_sync :: "url_state \<Rightarrow> bool" where
  "url_sync s =
     (unmounted s \<or>
      (audioUrl s = previousUrlRef s \<and> (previousUrlRef s = None) = (recordedBlob s = None)))"

text \<open>
  The platform calls the lifecycle asks of one facade operation, to compare the code with:
  nothing once unmounted; on unmount, the held URL is revoked; when an operation stores a
  blob reference other than the current one, the held URL is revoked first and then, if
  the new reference is a blob, a URL is minted for it; nothing otherwise.
\<close>

fun blob_written :: "facade_op \<Rightarrow> nat option option" where
  "blob_written (StopRecording blob) = Some blob"
| "blob_written ResetAll = Some None"
| "blob_written DisableMicrophone = Some None"
| "blob_written OtherControl = None"
| "blob_written Unmount = None"

definition revoke_held :: "url_state \<Rightarrow> url_call list" where
  "revoke_held s = (case held_url s of None \<Rightarrow> [] | Some u \<Rightarrow> [revokeObjectURL u])"

definition spec_url_calls :: "url_state \<Rightarrow> facade_op \<Rightarrow> url_call list" where
  "spec_url_calls s x =
     (if unmounted s then []
      else if x = Unmount then revoke_held s
      else (case blob_written x of
              None \<Rightarrow> []
            | Some b \<Rightarrow>
                if b = recordedBlob s then []
                else revoke_held s @
                     (case b of None \<Rightarrow> [] | Some _ \<Rightarrow> [createObjectURL (next_url s)])))"

subsection \<open>hooks/useRecordingTimer.ts: the timer\<close>

text \<open>
  The refs and the state of the hook. \<open>Date.now()\<close> is a whole number of milliseconds and
  enters as the argument \<open>now\<close>; \<open>intervalRef\<close> records whether an interval is scheduled.
  \<open>Math.floor(x / 1000)\<close> on whole numbers is \<open>div\<close>, which rounds down on negative
  numbers as well.
\<close>

record timer =
  elapsedTime :: int
  intervalRef :: bool
  startTimeRef :: "int option"
  pausedTimeRef :: int
  pauseStartTimeRef :: "int option"




definition timer_reset :: "timer \<Rightarrow> timer" where
  "timer_reset t =
     t\<lparr>elapsedTime := 0, startTimeRef := None, pausedTimeRef := 0, pauseStartTimeRef := None\<rparr>"




text \<open>The Idle state: no start timestamp, no pause timestamp, no pause total.\<close>

definition timer_idle :: "timer \<Rightarrow> bool" where
  "timer_idle t =
     (startTimeRef t = None \<and> pausedTimeRef t = 0 \<and> pauseStartTimeRef t = None)"







section \<open>Properties\<close>

subsection \<open>The level meter\<close>

lemma byte_value_bounds:
  "n < 256 \<Longrightarrow> - 1 \<le> (real n - 128) / 128 \<and> (real n - 128) / 128 < 1"
  by simp

lemma sample_value_bounds: "- 1 \<le> sample_value d \<and> sample_value d < 1"
proof -
  have "unat d < 256" using unsigned_less [of d] by simp
  then show ?thesis unfolding sample_value_def by (rule byte_value_bounds)
qed

lemma sample_square_bounds:
  "0 \<le> sample_value d * sample_value d \<and> sample_value d * sample_value d \<le> 1"
proof -
  have "\<bar>sample_value d\<bar> \<le> 1" using sample_value_bounds [of d] by linarith
  then have "(sample_value d)\<^sup>2 \<le> 1" by (simp add: abs_square_le_1)
  then show ?thesis by (simp add: power2_eq_square)
qed

lemma sumSquares_loop_bounds:
  "acc \<le> sumSquares_loop ds acc \<and> sumSquares_loop ds acc \<le> acc + real (length ds)"
proof (induction ds arbitrary: acc)
  case Nil
  then show ?case by simp
next
  case (Cons d ds)
  let ?q = "sample_value d * sample_value d"
  have q: "0 \<le> ?q" "?q \<le> 1" using sample_square_bounds [of d] by blast+
  have ih: "acc + ?q \<le> sumSquares_loop ds (acc + ?q)"
    "sumSquares_loop ds (acc + ?q) \<le> acc + ?q + real (length ds)"
    using Cons.IH [of "acc + ?q"] by blast+
  have "acc \<le> sumSquares_loop ds (acc + ?q)" using q(1) ih(1) by linarith
  moreover have "sumSquares_loop ds (acc + ?q) \<le> acc + (1 + real (length ds))"
    using q(2) ih(2) by linarith
  ultimately show ?case by simp
qed

lemma sumSquares_loop_silent:
  "\<forall>d\<in>set ds. d = 128 \<Longrightarrow> sumSquares_loop ds acc = acc"
  by (induction ds arbitrary: acc) (simp_all add: sample_value_def)

text \<open>
  C2. For every waveform buffer of bytes (each sample in 0..255, as a \<open>Uint8Array\<close> holds
  them) the RMS level computed by \<open>tick\<close> lies in the closed interval from 0 to 1. The
  buffer is not empty: the hook allocates \<open>frequencyBinCount\<close> bytes, half of an FFT size
  the platform accepts.
\<close>

theorem tick_rms_range:
  "data \<noteq> [] \<Longrightarrow> \<exists>level. tick_rms data = Some level \<and> 0 \<le> level \<and> level \<le> 1"
proof -
  assume ne: "data \<noteq> []"
  let ?s = "sumSquares_loop data 0"
  have b: "0 \<le> ?s \<and> ?s \<le> real (length data)"
    using sumSquares_loop_bounds [of 0 data] by simp
  have pos: "0 < real (length data)" using ne by simp
  have "0 \<le> ?s / real (length data)" using b pos by simp
  moreover have "?s / real (length data) \<le> 1" using b pos by simp
  ultimately show ?thesis using ne by (simp add: tick_rms_def)
qed

theorem tick_rms_range_witness:
  "[0, 128 :: 8 word] \<noteq> [] \<and>
   (\<exists>level. tick_rms [0, 128] = Some level \<and> 0 \<le> level \<and> level \<le> 1) \<and>
   tick_rms [0 :: 8 word] = Some 1"
proof -
  have h: "[0, 128 :: 8 word] \<noteq> []" by simp
  have "tick_rms [0 :: 8 word] = Some 1" by (simp add: tick_rms_def sample_value_def)
  then show ?thesis using h tick_rms_range [OF h] by simp
qed

text \<open>
  C9. A silent buffer, every sample at the midpoint 128, yields the level exactly 0.
\<close>

theorem tick_rms_silent:
  "data \<noteq> [] \<Longrightarrow> \<forall>d\<in>set data. d = 128 \<Longrightarrow> tick_rms data = Some 0"
  by (simp add: tick_rms_def sumSquares_loop_silent)

theorem tick_rms_silent_witness:
  "[128, 128, 128 :: 8 word] \<noteq> [] \<and> tick_rms [128, 128, 128 :: 8 word] = Some 0"
proof -
  have h: "[128, 128, 128 :: 8 word] \<noteq> []" by simp
  have a: "\<forall>d\<in>set [128, 128, 128 :: 8 word]. d = 128" by simp
  show ?thesis using h a tick_rms_silent [OF h a] by simp
qed

subsection \<open>normalizeAudioLevel\<close>

text \<open>
  C10. For every real level and every threshold, \<open>normalizeAudioLevel\<close> returns a value
  between 0 and 1: the level clamped to that interval, or exactly 0 when the clamped level
  is strictly below the threshold (0.01 when none is given).
\<close>

theorem normalizeAudioLevel_clamps:
  "0 \<le> normalizeAudioLevel level minLevel \<and> normalizeAudioLevel level minLevel \<le> 1 \<and>
   (max 0 (min 1 level) < (case minLevel of None \<Rightarrow> 1 / 100 | Some v \<Rightarrow> v)
      \<longrightarrow> normalizeAudioLevel level minLevel = 0) \<and>
   ((case minLevel of None \<Rightarrow> 1 / 100 | Some v \<Rightarrow> v) \<le> max 0 (min 1 level)
      \<longrightarrow> normalizeAudioLevel level minLevel = max 0 (min 1 level))"
  by (auto simp add: normalizeAudioLevel_def Let_def split: option.splits)

theorem normalizeAudioLevel_clamps_witness:
  "normalizeAudioLevel (1 / 200) None = 0 \<and> normalizeAudioLevel 3 (Some (1 / 2)) = 1"
proof -
  have a: "max 0 (min 1 (1 / 200 :: real)) < (case None of None \<Rightarrow> 1 / 100 | Some v \<Rightarrow> v)"
    by simp
  have b: "(case Some (1 / 2 :: real) of None \<Rightarrow> 1 / 100 | Some v \<Rightarrow> v) \<le> max 0 (min 1 3)"
    by simp
  show ?thesis
    using a b normalizeAudioLevel_clamps [of "1 / 200" None]
      normalizeAudioLevel_clamps [of 3 "Some (1 / 2)"]
    by simp
qed

subsection \<open>The two formatting paths\<close>

lemma toString_digit: "n < 10 \<Longrightarrow> toString n = [digit_char n]"
  by (simp add: toString.simps)

lemma toString_not_Nil: "toString n \<noteq> []"
  by (subst toString.simps) simp

lemma length_toString_ge2: "10 \<le> n \<Longrightarrow> 2 \<le> length (toString n)"
proof -
  assume "10 \<le> n"
  then have "toString n = toString (n div 10) @ [digit_char (n mod 10)]"
    by (subst toString.simps) simp
  moreover have "1 \<le> length (toString (n div 10))"
    using toString_not_Nil [of "n div 10"] by (cases "toString (n div 10)") simp_all
  ultimately show ?thesis by simp
qed

lemma padStart_two:
  "padStart 2 CHR ''0'' (toString n) = (if n < 10 then CHR ''0'' # toString n else toString n)"
proof (cases "n < 10")
  case True
  then show ?thesis by (simp add: padStart_def toString_digit)
next
  case False
  then have "2 \<le> length (toString n)" using length_toString_ge2 [of n] by simp
  then show ?thesis using False by (simp add: padStart_def)
qed

lemma digit_char_0: "digit_char 0 = CHR ''0''"
  by (simp add: digit_char_def)

lemma padStart_two_digits: "n < 100 \<Longrightarrow> padStart 2 CHR ''0'' (toString n) = two_digits n"
proof (cases "n < 10")
  case True
  then show ?thesis
    by (simp add: padStart_def toString_digit two_digits_def digit_char_0)
next
  case False
  assume "n < 100"
  then have "n div 10 < 10" by simp
  then have "toString n = [digit_char (n div 10), digit_char (n mod 10)]"
    using False by (subst toString.simps) (simp add: toString_digit)
  then show ?thesis by (simp add: padStart_def two_digits_def)
qed

lemma formatTime_fields:
  "formatTime s =
     (if s < 360000 then two_digits (s div 3600) else toString (s div 3600)) @ '':'' @
     two_digits (s mod 3600 div 60) @ '':'' @ two_digits (s mod 60)"
proof -
  have m: "padStart 2 CHR ''0'' (toString (s mod 3600 div 60)) = two_digits (s mod 3600 div 60)"
    by (rule padStart_two_digits) (simp add: div_less_iff_less_mult)
  have c: "padStart 2 CHR ''0'' (toString (s mod 60)) = two_digits (s mod 60)"
    by (rule padStart_two_digits) simp
  have h: "padStart 2 CHR ''0'' (toString (s div 3600)) =
      (if s < 360000 then two_digits (s div 3600) else toString (s div 3600))"
  proof (cases "s < 360000")
    case True
    then have "s div 3600 < 100" by (simp add: div_less_iff_less_mult)
    then show ?thesis using True by (simp add: padStart_two_digits)
  next
    case False
    then have "\<not> s div 3600 < 10" by (simp add: div_less_iff_less_mult)
    then show ?thesis using False by (simp add: padStart_two)
  qed
  show ?thesis by (simp add: formatTime_def Let_def m c h)
qed

lemma formatDuration_fields:
  "formatDuration s =
     (if 3600 \<le> s
      then toString (s div 3600) @ '':'' @ two_digits (s mod 3600 div 60) @ '':'' @
           two_digits (s mod 60)
      else toString (s div 60) @ '':'' @ two_digits (s mod 60))"
proof -
  have m: "padStart 2 CHR ''0'' (toString (s mod 3600 div 60)) = two_digits (s mod 3600 div 60)"
    by (rule padStart_two_digits) (simp add: div_less_iff_less_mult)
  have c: "padStart 2 CHR ''0'' (toString (s mod 60)) = two_digits (s mod 60)"
    by (rule padStart_two_digits) simp
  have h: "0 < s div 3600 \<longleftrightarrow> 3600 \<le> s" by (simp add: div_greater_zero_iff)
  show ?thesis
    by (simp add: formatDuration_def Let_def m c h)
qed

lemma formatTime_formatDuration:
  "formatTime s =
     (if s < 600 then ''00:0'' else if s < 3600 then ''00:'' else if s < 36000 then ''0''
      else []) @ formatDuration s"
proof -
  consider "s < 600" | "600 \<le> s \<and> s < 3600" | "3600 \<le> s \<and> s < 36000" | "36000 \<le> s"
    by linarith
  then show ?thesis
  proof cases
    case 1
    then have "s div 3600 = 0" "s mod 3600 div 60 < 10" by simp_all
    then show ?thesis using 1
      by (simp add: formatTime_def formatDuration_def Let_def padStart_two toString_digit digit_char_def)
  next
    case 2
    then have "s div 3600 = 0" "\<not> s mod 3600 div 60 < 10"
      by (simp_all add: div_less_iff_less_mult)
    then show ?thesis using 2
      by (simp add: formatTime_def formatDuration_def Let_def padStart_two toString_digit digit_char_def)
  next
    case 3
    then have "0 < s div 3600" "s div 3600 < 10" by (simp_all add: div_greater_zero_iff less_mult_imp_div_less)
    then show ?thesis using 3
      by (simp add: formatTime_def formatDuration_def Let_def padStart_two)
  next
    case 4
    then have "0 < s div 3600" "\<not> s div 3600 < 10" by (simp_all add: div_greater_zero_iff)
    then show ?thesis using 4
      by (simp add: formatTime_def formatDuration_def Let_def padStart_two)
  qed
qed

text \<open>
  C6 (as amended). For every non-negative whole number of seconds, \<open>formatTime\<close> emits
  hours, minutes and seconds separated by colons, each field zero-padded to two digits
  (the hours field grows beyond two digits from 100 hours on). \<open>formatDuration\<close> emits
  \<open>H:MM:SS\<close> with the hours unpadded when the hour count is positive, and \<open>M:SS\<close> with
  the minutes unpadded when it is zero. The two outputs differ exactly by the padding of
  the leading field: \<open>formatTime\<close> is \<open>formatDuration\<close> preceded by \<open>00:0\<close> below ten
  minutes, by \<open>00:\<close> below one hour, by \<open>0\<close> below ten hours, and by nothing from ten
  hours on.
\<close>

theorem format_paths:
  "formatTime s =
     (if s < 360000 then two_digits (s div 3600) else toString (s div 3600)) @ '':'' @
     two_digits (s mod 3600 div 60) @ '':'' @ two_digits (s mod 60) \<and>
   formatDuration s =
     (if 3600 \<le> s
      then toString (s div 3600) @ '':'' @ two_digits (s mod 3600 div 60) @ '':'' @
           two_digits (s mod 60)
      else toString (s div 60) @ '':'' @ two_digits (s mod 60)) \<and>
   formatTime s =
     (if s < 600 then ''00:0'' else if s < 3600 then ''00:'' else if s < 36000 then ''0''
      else []) @ formatDuration s"
  using formatTime_fields [of s] formatDuration_fields [of s] formatTime_formatDuration [of s]
  by (intro conjI)

text \<open>
  C6 as stated fails: with the hour count zero \<open>formatDuration\<close> does not emit the
  zero-padded \<open>MM:SS\<close> that remains of \<open>formatTime\<close>'s output once the hours are
  omitted. At five seconds \<open>formatTime\<close> gives \<open>00:00:05\<close> and \<open>formatDuration\<close> gives
  \<open>0:05\<close>, not \<open>00:05\<close>.
\<close>

theorem formatDuration_counterexample:
  "formatTime 5 = ''00:00:05'' \<and> formatDuration 5 = ''0:05'' \<and>
   formatDuration 5 \<noteq> drop 3 (formatTime 5)"
proof -
  have a: "formatTime 5 = ''00:00:05''" by code_simp
  have b: "formatDuration 5 = ''0:05''" by code_simp
  show ?thesis by (simp add: a b)
qed

subsection \<open>The microphone manager\<close>

lemma enable_failure_state:
  "mic_error (enable (Inl err) m) = Some (error_message err) \<and>
   \<not> isEnabled (enable (Inl err) m)"
  by (simp add: enable_def Let_def split: option.splits)

lemma error_message_cases:
  "error_message err \<in>
     {''Permission denied. Please allow microphone in browser site settings.'',
      ''Microphone device not found.'',
      ''Another app is using the microphone or it is not accessible.'',
      ''Microphone permission or device error''}"
  by (cases err) (simp_all add: error_message_def)

lemma error_message_denied:
  "error_message err = ''Permission denied. Please allow microphone in browser site settings.''
     \<longleftrightarrow> err \<in> {ErrorObject (Some ''NotAllowedError''), ErrorObject (Some ''SecurityError'')}"
  by (cases err) (auto simp add: error_message_def)

lemma error_message_not_found:
  "error_message err = ''Microphone device not found.''
     \<longleftrightarrow> err = ErrorObject (Some ''NotFoundError'')"
  by (cases err) (auto simp add: error_message_def)

lemma error_message_unavailable:
  "error_message err = ''Another app is using the microphone or it is not accessible.''
     \<longleftrightarrow> err = ErrorObject (Some ''NotReadableError'')"
  by (cases err) (auto simp add: error_message_def)

text \<open>
  C8. A failed \<open>enable\<close> maps the platform error to exactly one of four messages:
  permission denied for \<open>NotAllowedError\<close> and \<open>SecurityError\<close> and for nothing else,
  device not found for \<open>NotFoundError\<close> and for nothing else, device unavailable for
  \<open>NotReadableError\<close> and for nothing else, the generic message otherwise. The message
  becomes the error field and the enabled flag is false; so a platform denial leaves the
  permission-denied message and a disabled microphone.
\<close>

theorem enable_failure_mapping:
  "mic_error (enable (Inl err) m) = Some (error_message err) \<and>
   \<not> isEnabled (enable (Inl err) m) \<and>
   error_message err \<in>
     {''Permission denied. Please allow microphone in browser site settings.'',
      ''Microphone device not found.'',
      ''Another app is using the microphone or it is not accessible.'',
      ''Microphone permission or device error''} \<and>
   (error_message err = ''Permission denied. Please allow microphone in browser site settings.''
      \<longleftrightarrow> err \<in> {ErrorObject (Some ''NotAllowedError''), ErrorObject (Some ''SecurityError'')}) \<and>
   (error_message err = ''Microphone device not found.''
      \<longleftrightarrow> err = ErrorObject (Some ''NotFoundError'')) \<and>
   (error_message err = ''Another app is using the microphone or it is not accessible.''
      \<longleftrightarrow> err = ErrorObject (Some ''NotReadableError''))"
  using enable_failure_state [of err m] error_message_cases [of err]
    error_message_denied [of err] error_message_not_found [of err]
    error_message_unavailable [of err]
  by (intro conjI) (elim conjE, assumption)+

theorem enable_denied_witness:
  "mic_error (enable (Inl (ErrorObject (Some ''NotAllowedError''))) useMicrophone_init) =
     Some ''Permission denied. Please allow microphone in browser site settings.'' \<and>
   \<not> isEnabled (enable (Inl (ErrorObject (Some ''NotAllowedError''))) useMicrophone_init)"
  using enable_failure_mapping [of "ErrorObject (Some ''NotAllowedError'')" useMicrophone_init]
  by simp

subsection \<open>The recorder\<close>

text \<open>
  C7. \<open>start\<close> always empties the chunk list and clears the pause flag, and the prior
  error never survives it: the error field is empty afterwards, unless the engine's own
  \<open>start\<close> throws, which leaves the fresh start-failure message. The engine's
  \<open>start(100)\<close> is called exactly when an engine exists and is inactive; otherwise the
  engine reference is left as it was.
\<close>

theorem start_effect:
  "chunks (start throws r) = [] \<and> \<not> isPaused (start throws r) \<and>
   rec_error (start throws r) =
     (if engine_inactive r \<and> throws then Some ''Recording start failed'' else None) \<and>
   engine_calls (start throws r) =
     (if engine_inactive r then engine_calls r @ [CallStart 100] else engine_calls r) \<and>
   (if engine_inactive r
    then map_option state (recorderRef (start throws r)) =
           Some (if throws then inactive else recording) \<and>
         map_option onstop (recorderRef (start throws r)) = map_option onstop (recorderRef r)
    else recorderRef (start throws r) = recorderRef r) \<and>
   isRecording (start throws r) = isRecording r \<and> mimeType (start throws r) = mimeType r"
  by (auto simp add: start_def Let_def engine_inactive_def engine_calls_def split: option.splits)

text \<open>
  \<open>stop\<close> on an absent or inactive engine resolves with \<open>null\<close> and leaves the recorder
  as it was. On an active engine it resolves with a blob of the target MIME type (as the
  \<open>Blob\<close> constructor normalises it), built from the chunks held when \<open>stop\<close> was
  called; what the engine delivers while stopping is appended to the chunk list, not to
  the blob.
\<close>

lemma normalise_type_webm: "normalise_type ''audio/webm'' = ''audio/webm''"
  by (simp add: normalise_type_def ascii_lowercase_def)

lemma normalise_type_upper: "normalise_type ''Audio/WebM'' = ''audio/webm''"
  by code_simp

lemma stop_idle:
  "recorderRef r = None \<or> engine_inactive r \<Longrightarrow> await_stop final r = (r, Resolved None)"
  by (auto simp add: await_stop_def stop_def engine_inactive_def split: option.splits)

lemma new_Blob_type: "blob_type (new_Blob parts t) = normalise_type t"
  by (simp add: new_Blob_def)

lemma stop_active:
  "recorderRef r = Some e \<Longrightarrow> state e \<noteq> inactive \<Longrightarrow>
   snd (await_stop final r) = Resolved (Some (new_Blob (chunks r) (mimeType r))) \<and>
   chunks (fst (await_stop final r)) =
     (if blob_size final > 0 then chunks r @ [final] else chunks r)"
  by (simp add: await_stop_def stop_def engine_stopped_def fire_stop_def ondataavailable_def)

text \<open>
  C4. The claim that \<open>stop\<close> on an active engine resolves with a blob assembled from all
  delivered chunks fails on the code: with one chunk of two bytes held and a final chunk
  of one byte delivered by the stopping engine, the promise resolves with a blob of the
  first two bytes only, while the chunk list ends with both chunks (three bytes).
\<close>

theorem stop_drops_final_chunk:
  "snd (await_stop \<lparr>blob_data = [3], blob_type = ''audio/webm''\<rparr>
     \<lparr>recorderRef = Some \<lparr>state = recording, calls = [CallStart 100], onstop = SyncState\<rparr>,
      isRecording = True, isPaused = False,
      chunks = [\<lparr>blob_data = [1, 2], blob_type = ''audio/webm''\<rparr>],
      rec_error = None, mimeType = ''audio/webm''\<rparr>)
   = Resolved (Some \<lparr>blob_data = [1, 2], blob_type = ''audio/webm''\<rparr>) \<and>
   chunks (fst (await_stop \<lparr>blob_data = [3], blob_type = ''audio/webm''\<rparr>
     \<lparr>recorderRef = Some \<lparr>state = recording, calls = [CallStart 100], onstop = SyncState\<rparr>,
      isRecording = True, isPaused = False,
      chunks = [\<lparr>blob_data = [1, 2], blob_type = ''audio/webm''\<rparr>],
      rec_error = None, mimeType = ''audio/webm''\<rparr>))
   = [\<lparr>blob_data = [1, 2], blob_type = ''audio/webm''\<rparr>,
      \<lparr>blob_data = [3], blob_type = ''audio/webm''\<rparr>] \<and>
   new_Blob [\<lparr>blob_data = [1, 2], blob_type = ''audio/webm''\<rparr>,
             \<lparr>blob_data = [3], blob_type = ''audio/webm''\<rparr>] ''audio/webm''
   = \<lparr>blob_data = [1, 2, 3], blob_type = ''audio/webm''\<rparr>"
  by (simp add: await_stop_def stop_def engine_stopped_def fire_stop_def ondataavailable_def
      new_Blob_def blob_size_def normalise_type_webm)

subsection \<open>The orchestrator: the merged error\<close>

lemma error_effect_fixed:
  "error (error_effect s) =
     (if truthy (micError s) then micError s
      else if truthy (recorderError s) then recorderError s else error s) \<and>
   micError (error_effect s) = micError s \<and> recorderError (error_effect s) = recorderError s"
  by (simp add: error_effect_def js_or_def Let_def)

lemma error_effect_idem: "error_effect (error_effect s) = error_effect s"
  by (simp add: error_effect_def js_or_def Let_def)

lemma error_run_snoc: "error_run (rs @ [b]) = error_render (error_run rs) b"
  by (simp add: error_run_def)

text \<open>
  Every state a run ends in is settled: running the effect once more, as the render
  caused by the effect's own \<open>setError\<close> does, changes nothing.
\<close>

lemma error_run_settled: "error_effect (error_run rs) = error_run rs"
proof (induction rs rule: rev_induct)
  case Nil
  show ?case by (simp add: error_run_def error_init_def error_effect_def js_or_def truthy_def)
next
  case (snoc b rs)
  show ?case by (simp add: error_run_snoc error_render_def error_effect_idem)
qed

lemma error_set_batch:
  "micError (foldl error_set s b) = latest_mic (micError s) b \<and>
   recorderError (foldl error_set s b) = latest_recorder (recorderError s) b \<and>
   error (foldl error_set s b) = latest_local (error s) b"
proof (induction b arbitrary: s)
  case Nil
  show ?case by simp
next
  case (Cons e b)
  show ?case using Cons [of "error_set s e"] by (cases e) simp_all
qed

text \<open>
  C3 (as amended). After every render, whichever of the microphone error, the recorder
  error and the local error its batch of updates wrote, one of them or several together:
  the microphone error and the recorder error are the values last published, and the
  visible error is the microphone error when that is non-empty, otherwise the recorder
  error when that is non-empty, otherwise the local error last set in the batch or, when
  the batch set none, the error shown before. The precedence is fixed, microphone over
  recorder over local, whichever of them was written last.
\<close>

theorem error_merge_priority:
  "micError (error_run (rs @ [b])) = latest_mic (micError (error_run rs)) b \<and>
   recorderError (error_run (rs @ [b])) = latest_recorder (recorderError (error_run rs)) b \<and>
   error (error_run (rs @ [b])) =
     (if truthy (latest_mic (micError (error_run rs)) b)
      then latest_mic (micError (error_run rs)) b
      else if truthy (latest_recorder (recorderError (error_run rs)) b)
           then latest_recorder (recorderError (error_run rs)) b
      else latest_local (error (error_run rs)) b)"
  by (simp add: error_run_snoc error_render_def error_effect_fixed error_set_batch)

text \<open>
  A recorder error is shown; then \<open>startRecording\<close> clears the local error and the
  recorder's \<open>start\<close> clears the recorder error in one render: no error is shown. Had the
  local error been cleared alone, the effect would have put the recorder error back.
\<close>

theorem error_merge_priority_witness:
  "error (error_run [[RecorderErrorSet (Some ''Recording error'')],
                     [LocalErrorSet None, RecorderErrorSet None]]) = None \<and>
   error (error_run [[RecorderErrorSet (Some ''Recording error'')],
                     [LocalErrorSet None]]) = Some ''Recording error''"
proof -
  have first: "error_run [[RecorderErrorSet (Some ''Recording error'')]] =
      \<lparr>micError = None, recorderError = Some ''Recording error'',
       error = Some ''Recording error''\<rparr>"
    by (simp add: error_run_def error_render_def error_effect_def error_init_def js_or_def
        truthy_def)
  show ?thesis
    using error_merge_priority [of "[[RecorderErrorSet (Some ''Recording error'')]]"
        "[LocalErrorSet None, RecorderErrorSet None]"]
      error_merge_priority [of "[[RecorderErrorSet (Some ''Recording error'')]]"
        "[LocalErrorSet None]"]
    by (simp add: first truthy_def)
qed

text \<open>
  C3 as stated fails: last write does not win. When the microphone error is set first and
  the recorder error after it, the recorder error is the most recent non-empty one, and
  the error shown is still the microphone's.
\<close>

theorem error_merge_counterexample:
  "error (error_run [[MicErrorSet (Some ''Microphone device not found.'')],
                     [RecorderErrorSet (Some ''Recording error'')]])
     = Some ''Microphone device not found.'' \<and>
   spec_last_write_wins [MicErrorSet (Some ''Microphone device not found.''),
                         RecorderErrorSet (Some ''Recording error'')]
     = Some ''Recording error''"
  by (simp add: error_run_def error_render_def error_effect_def error_init_def js_or_def
      truthy_def)

subsection \<open>The orchestrator: the object URL\<close>

lemma created_urls_append [simp]:
  "created_urls (cs @ ds) = created_urls cs @ created_urls ds"
  by (induction cs rule: created_urls.induct) simp_all

lemma revoked_urls_append [simp]:
  "revoked_urls (cs @ ds) = revoked_urls cs @ revoked_urls ds"
  by (induction cs rule: revoked_urls.induct) simp_all

lemma live_urls_append: "live_urls (cs @ ds) = foldl apply_url_call (live_urls cs) ds"
  by (simp add: live_urls_def)

lemma one_live_snoc:
  "\<forall>n. length (live_urls (take n cs)) \<le> 1 \<Longrightarrow> length (live_urls (cs @ [c])) \<le> 1 \<Longrightarrow>
   \<forall>n. length (live_urls (take n (cs @ [c]))) \<le> 1"
proof
  fix n
  assume a: "\<forall>n. length (live_urls (take n cs)) \<le> 1"
    and b: "length (live_urls (cs @ [c])) \<le> 1"
  show "length (live_urls (take n (cs @ [c]))) \<le> 1"
  proof (cases "n \<le> length cs")
    case True
    then show ?thesis using a by simp
  next
    case False
    then show ?thesis using b by simp
  qed
qed

lemma url_effect_inv:
  "\<not> unmounted s \<Longrightarrow> url_inv s \<Longrightarrow> \<forall>n. length (live_urls (take n (url_log s))) \<le> 1 \<Longrightarrow>
   url_inv (url_effect s) \<and> (\<forall>n. length (live_urls (take n (url_log (url_effect s)))) \<le> 1) \<and>
   unmounted (url_effect s) = unmounted s"
proof -
  assume m: "\<not> unmounted s" and inv: "url_inv s"
    and one: "\<forall>n. length (live_urls (take n (url_log s))) \<le> 1"
  show ?thesis
  proof (cases "previousUrlRef s")
    case None
    show ?thesis
    proof (cases "recordedBlob s")
      case nb: None
      then show ?thesis using None m inv one
        by (simp add: url_effect_def url_inv_def held_url_def)
    next
      case (Some b)
      have l: "length (live_urls (url_log s @ [createObjectURL (next_url s)])) \<le> 1"
        using None m inv by (simp add: live_urls_append url_inv_def held_url_def)
      have "\<forall>n. length (live_urls (take n (url_log s @ [createObjectURL (next_url s)]))) \<le> 1"
        using one_live_snoc [OF one l] .
      then show ?thesis using None Some m inv
        by (simp add: url_effect_def url_inv_def held_url_def live_urls_append Let_def)
    qed
  next
    case (Some u)
    have nx: "next_url s = Suc u" and cr: "created_urls (url_log s) = [0..<Suc u]"
      and rv: "revoked_urls (url_log s) = [0..<u]" and lv: "live_urls (url_log s) = [u]"
      using Some m inv by (auto simp add: url_inv_def held_url_def)
    have l1: "length (live_urls (url_log s @ [revokeObjectURL u])) \<le> 1"
      using Some m inv by (simp add: live_urls_append url_inv_def held_url_def)
    have one1: "\<forall>n. length (live_urls (take n (url_log s @ [revokeObjectURL u]))) \<le> 1"
      using one_live_snoc [OF one l1] .
    show ?thesis
    proof (cases "recordedBlob s")
      case None
      then show ?thesis using Some m one1 nx cr rv lv
        by (simp add: url_effect_def url_inv_def held_url_def live_urls_append Let_def)
    next
      case (Some b)
      have l2: "length (live_urls ((url_log s @ [revokeObjectURL u]) @
          [createObjectURL (next_url s)])) \<le> 1"
        using lv by (simp add: live_urls_append)
      have "\<forall>n. length (live_urls (take n ((url_log s @ [revokeObjectURL u]) @
          [createObjectURL (next_url s)]))) \<le> 1"
        using one_live_snoc [OF one1 l2] .
      then show ?thesis using \<open>previousUrlRef s = Some u\<close> Some m nx cr rv lv
        by (simp add: url_effect_def url_inv_def held_url_def live_urls_append Let_def)
    qed
  qed
qed

lemma unmount_inv:
  "url_inv s \<Longrightarrow> \<forall>n. length (live_urls (take n (url_log s))) \<le> 1 \<Longrightarrow>
   url_inv (unmount s) \<and> (\<forall>n. length (live_urls (take n (url_log (unmount s)))) \<le> 1) \<and>
   unmounted (unmount s)"
proof -
  assume inv: "url_inv s" and one: "\<forall>n. length (live_urls (take n (url_log s))) \<le> 1"
  show ?thesis
  proof (cases "unmounted s")
    case True
    then show ?thesis using inv one by (simp add: unmount_def)
  next
    case False
    show ?thesis
    proof (cases "previousUrlRef s")
      case None
      then show ?thesis using False inv one
        by (simp add: unmount_def url_inv_def held_url_def)
    next
      case (Some u)
      have nx: "next_url s = Suc u" and cr: "created_urls (url_log s) = [0..<Suc u]"
        and rv: "revoked_urls (url_log s) = [0..<u]" and lv: "live_urls (url_log s) = [u]"
        using Some False inv by (auto simp add: url_inv_def held_url_def)
      have l1: "length (live_urls (url_log s @ [revokeObjectURL u])) \<le> 1"
        using lv by (simp add: live_urls_append)
      have "\<forall>n. length (live_urls (take n (url_log s @ [revokeObjectURL u]))) \<le> 1"
        using one_live_snoc [OF one l1] .
      then show ?thesis using Some False nx cr rv lv
        by (simp add: unmount_def url_inv_def held_url_def live_urls_append)
    qed
  qed
qed

lemma facade_step_inv:
  "url_inv s \<and> (\<forall>n. length (live_urls (take n (url_log s))) \<le> 1) \<Longrightarrow>
   url_inv (facade_step s x) \<and>
   (\<forall>n. length (live_urls (take n (url_log (facade_step s x)))) \<le> 1)"
proof -
  assume a: "url_inv s \<and> (\<forall>n. length (live_urls (take n (url_log s))) \<le> 1)"
  have set_blob: "url_inv (setRecordedBlob b s) \<and>
      (\<forall>n. length (live_urls (take n (url_log (setRecordedBlob b s)))) \<le> 1)" for b
  proof (cases "unmounted s \<or> recordedBlob s = b")
    case True
    then show ?thesis using a by (simp add: setRecordedBlob_def)
  next
    case False
    let ?s = "s\<lparr>recordedBlob := b\<rparr>"
    have "\<not> unmounted ?s" using False by simp
    moreover have "url_inv ?s = url_inv s"
      by (simp add: url_inv_def held_url_def cong: option.case_cong)
    then have "url_inv ?s" using a by blast
    moreover have "\<forall>n. length (live_urls (take n (url_log ?s))) \<le> 1" using a by simp
    ultimately have "url_inv (url_effect ?s) \<and>
        (\<forall>n. length (live_urls (take n (url_log (url_effect ?s)))) \<le> 1)"
      using url_effect_inv [of ?s] by blast
    then show ?thesis using False by (simp add: setRecordedBlob_def)
  qed
  show ?thesis
  proof (cases x)
    case (StopRecording blob)
    then show ?thesis using set_blob [of blob] by simp
  next
    case ResetAll
    then show ?thesis using set_blob [of None] by simp
  next
    case DisableMicrophone
    then show ?thesis using set_blob [of None] by simp
  next
    case OtherControl
    then show ?thesis using a by simp
  next
    case Unmount
    then show ?thesis using a unmount_inv [of s] by simp
  qed
qed

lemma facade_run_snoc: "facade_run (xs @ [x]) = facade_step (facade_run xs) x"
  by (simp add: facade_run_def)

lemma facade_run_inv:
  "url_inv (facade_run xs) \<and> (\<forall>n. length (live_urls (take n (url_log (facade_run xs)))) \<le> 1)"
proof (induction xs rule: rev_induct)
  case Nil
  show ?case by (simp add: facade_run_def url_init_def url_inv_def held_url_def live_urls_def)
next
  case (snoc x xs)
  then show ?case unfolding facade_run_snoc by (rule facade_step_inv)
qed

lemma facade_step_unmounted:
  "unmounted s \<Longrightarrow> unmounted (facade_step s x)"
  by (cases x) (simp_all add: setRecordedBlob_def unmount_def)

lemma unmounted_unmount: "unmounted (unmount s)"
  by (simp add: unmount_def split: option.splits)

lemma facade_run_unmounted: "Unmount \<in> set xs \<Longrightarrow> unmounted (facade_run xs)"
proof (induction xs rule: rev_induct)
  case Nil
  then show ?case by simp
next
  case (snoc x xs)
  show ?case
  proof (cases "x = Unmount")
    case True
    then show ?thesis by (simp add: facade_run_snoc unmounted_unmount)
  next
    case False
    then have "Unmount \<in> set xs" using snoc.prems by simp
    then show ?thesis using snoc.IH by (simp add: facade_run_snoc facade_step_unmounted)
  qed
qed

lemma count_revoke:
  "count_list cs (revokeObjectURL u) = count_list (revoked_urls cs) u"
  by (induction cs rule: revoked_urls.induct) simp_all

lemma created_mem: "createObjectURL u \<in> set cs \<longleftrightarrow> u \<in> set (created_urls cs)"
  by (induction cs rule: created_urls.induct) auto

lemma count_upt: "count_list [0..<k] u = (if u < k then 1 else 0)"
  by (induction k) auto

lemma facade_step_sync: "url_sync s \<Longrightarrow> url_sync (facade_step s x)"
  by (cases x)
    (auto simp add: url_sync_def setRecordedBlob_def url_effect_def unmount_def Let_def
      split: option.splits)

lemma facade_run_sync: "url_sync (facade_run xs)"
proof (induction xs rule: rev_induct)
  case Nil
  show ?case by (simp add: facade_run_def url_init_def url_sync_def)
next
  case (snoc x xs)
  then show ?case unfolding facade_run_snoc by (rule facade_step_sync)
qed

lemma facade_step_calls: "url_log (facade_step s x) = url_log s @ spec_url_calls s x"
  by (cases x)
    (auto simp add: spec_url_calls_def revoke_held_def held_url_def setRecordedBlob_def
      url_effect_def unmount_def Let_def split: option.splits)

text \<open>
  C5. For every sequence of facade operations: at every moment of the sequence of platform
  calls at most one object URL is alive, so a new URL is minted only after the previous
  one was revoked; no URL is revoked twice; every URL minted is revoked exactly once,
  except the one the facade still holds, which is not revoked yet; and once the facade
  is unmounted it holds no URL and none is alive. The URL alive is exactly the one the
  facade holds; while mounted the facade publishes that URL and holds one exactly when a
  blob is recorded, so that a change of the blob to \<open>null\<close> leaves no URL alive. Each
  further operation makes exactly the platform calls the lifecycle asks for: when the
  blob reference changes, the held URL is revoked and then, for a blob, a URL never
  minted before is minted; on unmount the held URL is revoked.
\<close>

theorem object_url_lifecycle:
  "(\<forall>n. length (live_urls (take n (url_log (facade_run xs)))) \<le> 1) \<and>
   (\<forall>u. count_list (url_log (facade_run xs)) (revokeObjectURL u) \<le> 1) \<and>
   (\<forall>u. createObjectURL u \<in> set (url_log (facade_run xs)) \<longrightarrow>
        count_list (url_log (facade_run xs)) (revokeObjectURL u) =
          (if held_url (facade_run xs) = Some u then 0 else 1)) \<and>
   (Unmount \<in> set xs \<longrightarrow>
      held_url (facade_run xs) = None \<and> live_urls (url_log (facade_run xs)) = []) \<and>
   live_urls (url_log (facade_run xs)) =
     (case held_url (facade_run xs) of None \<Rightarrow> [] | Some u \<Rightarrow> [u]) \<and>
   (\<not> unmounted (facade_run xs) \<longrightarrow>
      audioUrl (facade_run xs) = held_url (facade_run xs) \<and>
      (held_url (facade_run xs) = None) = (recordedBlob (facade_run xs) = None)) \<and>
   url_log (facade_run (xs @ [x])) =
     url_log (facade_run xs) @ spec_url_calls (facade_run xs) x \<and>
   next_url (facade_run xs) \<notin> set (created_urls (url_log (facade_run xs)))"
proof -
  let ?s = "facade_run xs"
  have inv: "url_inv ?s" and one: "\<forall>n. length (live_urls (take n (url_log ?s))) \<le> 1"
    using facade_run_inv [of xs] by blast+
  have cr: "created_urls (url_log ?s) = [0..<next_url ?s]"
    using inv by (simp add: url_inv_def)
  have twice: "count_list (url_log ?s) (revokeObjectURL u) \<le> 1" for u
  proof (cases "held_url ?s")
    case None
    then have "revoked_urls (url_log ?s) = [0..<next_url ?s]"
      using inv by (simp add: url_inv_def)
    then show ?thesis by (simp add: count_revoke count_upt)
  next
    case (Some v)
    then have "revoked_urls (url_log ?s) = [0..<v]"
      using inv by (simp add: url_inv_def)
    then show ?thesis by (simp add: count_revoke count_upt)
  qed
  have once: "count_list (url_log ?s) (revokeObjectURL u) =
      (if held_url ?s = Some u then 0 else 1)"
    if c: "createObjectURL u \<in> set (url_log ?s)" for u
  proof -
    have lt: "u < next_url ?s" using c cr by (simp add: created_mem)
    show ?thesis
    proof (cases "held_url ?s")
      case None
      then have "revoked_urls (url_log ?s) = [0..<next_url ?s]"
        using inv by (simp add: url_inv_def)
      then show ?thesis using None lt by (simp add: count_revoke count_upt)
    next
      case (Some v)
      then have "Suc v = next_url ?s" and "revoked_urls (url_log ?s) = [0..<v]"
        using inv by (simp_all add: url_inv_def)
      then show ?thesis using Some lt by (auto simp add: count_revoke count_upt)
    qed
  qed
  have gone: "held_url ?s = None \<and> live_urls (url_log ?s) = []" if "Unmount \<in> set xs"
  proof -
    have "unmounted ?s" using that by (rule facade_run_unmounted)
    then have "held_url ?s = None" by (simp add: held_url_def)
    then show ?thesis using inv by (simp add: url_inv_def)
  qed
  have live: "live_urls (url_log ?s) = (case held_url ?s of None \<Rightarrow> [] | Some u \<Rightarrow> [u])"
    using inv by (simp add: url_inv_def split: option.splits)
  have sync: "audioUrl ?s = held_url ?s \<and> (held_url ?s = None) = (recordedBlob ?s = None)"
    if "\<not> unmounted ?s"
    using facade_run_sync [of xs] that by (simp add: url_sync_def held_url_def)
  have calls: "url_log (facade_run (xs @ [x])) = url_log ?s @ spec_url_calls ?s x"
    by (simp add: facade_run_snoc facade_step_calls)
  have fresh: "next_url ?s \<notin> set (created_urls (url_log ?s))"
    by (simp add: cr)
  show ?thesis
    using one twice once gone live sync calls fresh
    by (intro conjI allI impI) blast+
qed

theorem object_url_lifecycle_witness:
  "url_log (facade_run [StopRecording (Some 7), StopRecording (Some 8), ResetAll,
                         OtherControl, StopRecording (Some 9), Unmount]) =
     [createObjectURL 0, revokeObjectURL 0, createObjectURL 1, revokeObjectURL 1,
      createObjectURL 2, revokeObjectURL 2] \<and>
   count_list (url_log (facade_run [StopRecording (Some 7), StopRecording (Some 8), ResetAll,
                         OtherControl, StopRecording (Some 9), Unmount])) (revokeObjectURL 1) = 1 \<and>
   live_urls (url_log (facade_run [StopRecording (Some 7), StopRecording (Some 8), ResetAll,
                         OtherControl, StopRecording (Some 9), Unmount])) = [] \<and>
   url_log (facade_run [StopRecording (Some 7), ResetAll]) =
     [createObjectURL 0, revokeObjectURL 0] \<and>
   live_urls (url_log (facade_run [StopRecording (Some 7), ResetAll])) = [] \<and>
   held_url (facade_run [StopRecording (Some 7), ResetAll]) = None"
proof -
  let ?xs = "[StopRecording (Some 7), StopRecording (Some 8), ResetAll,
              OtherControl, StopRecording (Some 9), Unmount]"
  let ?ys = "[StopRecording (Some 7), ResetAll]"
  have log: "url_log (facade_run ?xs) =
     [createObjectURL 0, revokeObjectURL 0, createObjectURL 1, revokeObjectURL 1,
      createObjectURL 2, revokeObjectURL 2]"
    by (simp add: facade_run_def url_init_def setRecordedBlob_def url_effect_def unmount_def
        Let_def)
  have u: "Unmount \<in> set ?xs" by simp
  have c: "createObjectURL 1 \<in> set (url_log (facade_run ?xs))" unfolding log by simp
  have h: "held_url (facade_run ?xs) = None \<and> live_urls (url_log (facade_run ?xs)) = []"
    using object_url_lifecycle [of ?xs] u by blast
  have n: "count_list (url_log (facade_run ?xs)) (revokeObjectURL 1) =
      (if held_url (facade_run ?xs) = Some 1 then 0 else 1)"
    using object_url_lifecycle [of ?xs] c by blast
  have one: "facade_run [StopRecording (Some 7)] =
      \<lparr>recordedBlob = Some 7, audioUrl = Some 0, previousUrlRef = Some 0,
       url_log = [createObjectURL 0], next_url = 1, unmounted = False\<rparr>"
    by (simp add: facade_run_def url_init_def setRecordedBlob_def url_effect_def Let_def)
  have m: "\<not> unmounted (facade_run ?ys)" and b: "recordedBlob (facade_run ?ys) = None"
    by (simp_all add: facade_run_def url_init_def setRecordedBlob_def url_effect_def Let_def)
  have step: "url_log (facade_run ([StopRecording (Some 7)] @ [ResetAll])) =
      url_log (facade_run [StopRecording (Some 7)]) @
      spec_url_calls (facade_run [StopRecording (Some 7)]) ResetAll"
    using object_url_lifecycle [of "[StopRecording (Some 7)]" ResetAll] by blast
  have ylog: "url_log (facade_run ?ys) = [createObjectURL 0, revokeObjectURL 0]"
    using step by (simp add: one spec_url_calls_def revoke_held_def held_url_def)
  have yheld: "held_url (facade_run ?ys) = None"
    using object_url_lifecycle [of ?ys] m b by blast
  have ylive: "live_urls (url_log (facade_run ?ys)) = []"
    using object_url_lifecycle [of ?ys] yheld by simp
  show ?thesis using h n log ylog yheld ylive by simp
qed

subsection \<open>The recording timer\<close>






lemma timer_idle_reset: "timer_idle (timer_reset t)"
  by (simp add: timer_idle_def timer_reset_def)





end
